theory Spec2Isabelle
  imports Complex_Main
begin

section \<open>MetricsEngine (src/emotion\_monitor.py)\<close>

text \<open>
  Python floats are modelled as real numbers: rounding, infinities and NaN are outside
  the model. Exceptions are values of \<open>py_error\<close>.
\<close>

datatype py_error = ValueError | IndexError

type_synonym bbox = "real \<times> real \<times> real \<times> real"

text \<open>One entry of the windows: the dict built by \<open>push\<close>; \<open>ts\<close> is the reading of \<open>time.time()\<close>.\<close>

record sample =
  probs :: "real list"
  top_label :: string
  box :: "bbox option"
  ear :: "real option"
  pose :: "(real \<times> real \<times> real) option"
  ts :: real

record engine =
  short_w :: nat
  long_w :: nat
  ema_alpha :: real
  buf :: "sample list"
  long_buf :: "sample list"
  center_vel :: "real list"
  prev_center :: "(real \<times> real) option"
  eng_ema :: "real option"

record derived_metrics =
  attentiveness :: real
  positivity :: real
  engagement :: real
  boredom :: real
  frustration :: real
  volatility :: real
  distraction :: real
  fatigue :: real
  risk :: real

text \<open>\<open>MetricsEngine.__init__\<close>: empty deques, no centroid, no moving average.\<close>

definition MetricsEngine_init :: "nat \<Rightarrow> nat \<Rightarrow> real \<Rightarrow> engine" where
  "MetricsEngine_init sw lw alpha =
     \<lparr>short_w = sw, long_w = lw, ema_alpha = alpha, buf = [], long_buf = [],
      center_vel = [], prev_center = None, eng_ema = None\<rparr>"

text \<open>\<open>collections.deque(maxlen=n).append\<close>: the oldest entries leave on overflow.\<close>

definition deque_append :: "nat \<Rightarrow> 'a list \<Rightarrow> 'a \<Rightarrow> 'a list" where
  "deque_append maxlen xs x = (let ys = xs @ [x] in drop (length ys - maxlen) ys)"

definition hypot :: "real \<Rightarrow> real \<Rightarrow> real" where
  "hypot dx dy = sqrt (dx * dx + dy * dy)"

text \<open>
  \<open>MetricsEngine.push\<close>. With \<open>short_w = 0\<close> the deque stays empty and \<open>self.buf[-1]\<close>
  raises IndexError before anything else is changed.
\<close>

definition push :: "engine \<Rightarrow> sample \<Rightarrow> py_error + engine" where
  "push s x =
     (let buf' = deque_append (short_w s) (buf s) x in
      if buf' = [] then Inl IndexError
      else
        let long' = deque_append (long_w s) (long_buf s) (last buf') in
        (case box x of
           Some (bx, by, w, h) \<Rightarrow>
             let cx = bx + w / 2;
                 cy = by + h / 2;
                 dist = (case prev_center s of
                           None \<Rightarrow> 0
                         | Some (px, py) \<Rightarrow> hypot (cx - px) (cy - py));
                 norm_dist = dist / max 1 ((w + h) / 2)
             in Inr (s\<lparr>buf := buf', long_buf := long',
                       center_vel := deque_append (short_w s) (center_vel s) norm_dist,
                       prev_center := Some (cx, cy)\<rparr>)
         | None \<Rightarrow>
             Inr (s\<lparr>buf := buf', long_buf := long',
                    center_vel := deque_append (short_w s) (center_vel s) 0\<rparr>)))"

subsection \<open>The numpy helpers used by compute\<close>

definition clip :: "real \<Rightarrow> real \<Rightarrow> real \<Rightarrow> real" where
  "clip x lo hi = min (max x lo) hi"

definition mean :: "real list \<Rightarrow> real" where
  "mean xs = sum_list xs / real (length xs)"

text \<open>\<open>np.std\<close>: the population standard deviation.\<close>

definition np_std :: "real list \<Rightarrow> real" where
  "np_std xs = sqrt (mean (map (\<lambda>x. (x - mean xs) * (x - mean xs)) xs))"

text \<open>\<open>np.array\<close> of a list of rows raises ValueError unless all rows have one length.\<close>

definition rectangular :: "real list list \<Rightarrow> bool" where
  "rectangular rows = list_all (\<lambda>r. length r = length (hd rows)) rows"

definition column :: "real list list \<Rightarrow> nat \<Rightarrow> real list" where
  "column rows j = map (\<lambda>r. r ! j) rows"

definition columns :: "real list list \<Rightarrow> real list list" where
  "columns rows = map (column rows) [0 ..< length (hd rows)]"

text \<open>\<open>np.mean(np.std(rows, axis=0))\<close>\<close>

definition mean_std :: "real list list \<Rightarrow> real" where
  "mean_std rows = mean (map np_std (columns rows))"

text \<open>\<open>sum(1 for t in tops if t in ("Neutral", "Sad")) / len(tops)\<close>\<close>

definition neutral_sad_fraction :: "string list \<Rightarrow> real" where
  "neutral_sad_fraction tops =
     real (length (filter (\<lambda>t. t = ''Neutral'' \<or> t = ''Sad'') tops)) / real (length tops)"

subsection \<open>The metrics, one definition per block of compute\<close>

text \<open>
  The current vector is unpacked as
  \<open>pH, pSad, pAng, pSur, pFea, pDis, pNeu\<close>, that is indices 0 to 6.
\<close>

definition A_raw :: "real list \<Rightarrow> real" where
  "A_raw cur = 0.6 * cur ! 3 + 0.35 * cur ! 6
                 - 0.25 * (cur ! 1 + cur ! 2 + cur ! 4 + cur ! 5)"

definition Att :: "real list \<Rightarrow> real" where
  "Att cur = clip (A_raw cur) 0 1"

definition P_raw :: "real list \<Rightarrow> real" where
  "P_raw cur = cur ! 0 * 1 + cur ! 6 * 0.2 - cur ! 1 * 0.6 - cur ! 2 * 0.6
                 - cur ! 5 * 0.5 - cur ! 4 * 0.4 + cur ! 3 * 0.15"

definition Pos :: "real list \<Rightarrow> real" where
  "Pos cur = clip ((P_raw cur + 0.6) / 1.6) 0 1"

definition Eng_raw :: "real list \<Rightarrow> real" where
  "Eng_raw cur = 0.7 * Att cur + 0.3 * Pos cur"

text \<open>The new value of \<open>self.eng_ema\<close>.\<close>

definition ema_update :: "real \<Rightarrow> real option \<Rightarrow> real \<Rightarrow> real" where
  "ema_update alpha old raw =
     (case old of None \<Rightarrow> raw | Some e \<Rightarrow> (1 - alpha) * e + alpha * raw)"

definition entropy_ratio :: "real list \<Rightarrow> real" where
  "entropy_ratio mean_probs =
     - sum_list (map (\<lambda>p. p * ln (p + 1 / 10 ^ 12)) mean_probs) / ln (real (length mean_probs))"

definition Boredom :: "real list list \<Rightarrow> string list \<Rightarrow> real" where
  "Boredom rows tops =
     (let neutral_sad = neutral_sad_fraction tops;
          mean_probs = map mean (columns rows);
          ent = entropy_ratio mean_probs;
          low_var = 1 - ent
      in clip (neutral_sad * 0.8 + low_var * 0.2) 0 1)"

definition Fr :: "real list list \<Rightarrow> real" where
  "Fr rows =
     (let cur = last rows;
          base = cur ! 2 + cur ! 4 + cur ! 5;
          prev_mean = (if length rows > 1
                       then mean (map (\<lambda>r. r ! 2 + r ! 4 + r ! 5) (butlast rows))
                       else 0);
          trend = max 0 (base - prev_mean)
      in clip (0.6 * base + 0.4 * trend) 0 1)"

definition Vol :: "real list list \<Rightarrow> real" where
  "Vol rows = clip (mean_std rows / 0.5) 0 1"

definition Distraction :: "real list \<Rightarrow> real list \<Rightarrow> real" where
  "Distraction vel cur =
     (let move = mean vel;
          move' = clip (move * 3) 0 1
      in clip (0.6 * move' + 0.4 * (1 - Att cur)) 0 1)"

definition Fatigue :: "sample list \<Rightarrow> real" where
  "Fatigue b =
     (let ears = concat (map (\<lambda>x. case ear x of None \<Rightarrow> [] | Some e \<Rightarrow> [e]) b) in
      if length ears > 0 then clip (1 - (mean ears - 0.10) / 0.25) 0 1 else 0)"

text \<open>The risk block; the long window goes through \<open>np.array\<close> only in its first branch.\<close>

definition Risk :: "engine \<Rightarrow> real \<Rightarrow> real \<Rightarrow> real \<Rightarrow> py_error + real" where
  "Risk s bored fr vol =
     (if length (long_buf s) > 10 then
        (let long_tops = map top_label (long_buf s);
             lf = neutral_sad_fraction long_tops;
             long_probs = map probs (long_buf s)
         in if \<not> rectangular long_probs then Inl ValueError
            else let long_vol = mean_std long_probs
                 in Inr (clip (0.5 * lf + 0.3 * fr + 0.2 * clip (long_vol / 0.5) 0 1) 0 1))
      else Inr (clip (0.5 * bored + 0.3 * fr + 0.2 * vol) 0 1))"

text \<open>
  \<open>MetricsEngine.compute\<close>. The result is the returned dict (\<open>None\<close> for the empty dict)
  or the exception, together with the engine as the call leaves it: the moving average is
  stored before the risk block can raise.
\<close>

definition compute :: "engine \<Rightarrow> (py_error + derived_metrics option) \<times> engine" where
  "compute s =
     (if buf s = [] then (Inr None, s)
      else
        let rows = map probs (buf s);
            top_labels = map top_label (buf s)
        in if \<not> rectangular rows then (Inl ValueError, s)
           else
             let cur = last rows in
             if length cur \<noteq> 7 then (Inl ValueError, s)
             else
               let ema = ema_update (ema_alpha s) (eng_ema s) (Eng_raw cur);
                   s' = s\<lparr>eng_ema := Some ema\<rparr>;
                   bored = Boredom rows top_labels;
                   fr = Fr rows;
                   vol = Vol rows
               in (case Risk s bored fr vol of
                     Inl e \<Rightarrow> (Inl e, s')
                   | Inr r \<Rightarrow>
                       (Inr (Some \<lparr>attentiveness = Att cur, positivity = Pos cur,
                                   engagement = clip ema 0 1, boredom = bored,
                                   frustration = fr, volatility = vol,
                                   distraction = Distraction (center_vel s) cur,
                                   fatigue = Fatigue (buf s), risk = r\<rparr>), s')))"

text \<open>
  A caller's history: pushes and computes in any order. An exception ends one call, not
  the engine, so the history continues from the state that call left.
\<close>

datatype engine_op = Push sample | Compute

fun step :: "engine \<Rightarrow> engine_op \<Rightarrow> engine" where
  "step s (Push x) = (case push s x of Inl e \<Rightarrow> s | Inr s' \<Rightarrow> s')"
| "step s Compute = snd (compute s)"

definition run :: "engine \<Rightarrow> engine_op list \<Rightarrow> engine" where
  "run s ops = foldl step s ops"

fun pushed :: "engine_op list \<Rightarrow> sample list" where
  "pushed [] = []"
| "pushed (Push x # ops) = x # pushed ops"
| "pushed (Compute # ops) = pushed ops"

text \<open>A probability vector over the seven labels, up to a tolerance on its sum.\<close>

definition prob_vector :: "real \<Rightarrow> real list \<Rightarrow> bool" where
  "prob_vector eps p =
     (length p = 7 \<and> list_all (\<lambda>x. 0 \<le> x) p \<and> \<bar>sum_list p - 1\<bar> \<le> eps)"

definition in_unit :: "real \<Rightarrow> bool" where
  "in_unit x = (0 \<le> x \<and> x \<le> 1)"

definition all_in_unit :: "derived_metrics \<Rightarrow> bool" where
  "all_in_unit m =
     (in_unit (attentiveness m) \<and> in_unit (positivity m) \<and> in_unit (engagement m) \<and>
      in_unit (boredom m) \<and> in_unit (frustration m) \<and> in_unit (volatility m) \<and>
      in_unit (distraction m) \<and> in_unit (fatigue m) \<and> in_unit (risk m))"

text \<open>
  Two samples for the concrete runs below: an all-Neutral frame with the probabilities
  \<open>[0.05, 0.1, 0.05, 0.05, 0.05, 0.05, 0.65]\<close> and a Happy-dominant frame, both without a
  bounding box, eye-aspect ratio or head pose.
\<close>

definition sample_neutral :: sample where
  "sample_neutral =
     \<lparr>probs = [0.05, 0.1, 0.05, 0.05, 0.05, 0.05, 0.65], top_label = ''Neutral'',
      box = None, ear = None, pose = None, ts = 0\<rparr>"


text \<open>An engine whose two windows hold eleven Neutral samples.\<close>

definition eleven_neutral :: engine where
  "eleven_neutral =
     \<lparr>short_w = 30, long_w = 300, ema_alpha = 0.2, buf = replicate 11 sample_neutral,
      long_buf = replicate 11 sample_neutral, center_vel = replicate 11 0,
      prev_center = None, eng_ema = None\<rparr>"

section \<open>Worker supervisor (backend/app/services/capture\_worker.py, process\_manager.py)\<close>

text \<open>A value returned by \<open>json.loads\<close>; an object keeps its keys in insertion order.\<close>

datatype json =
    JObject "(string \<times> json) list"
  | JArray "json list"
  | JString string
  | JNumber real
  | JBool bool
  | JNull

text \<open>
  The operating-system calls a worker makes, in the order it makes them. The command
  line and the environment of the launch are not modelled.
\<close>

datatype os_action =
    Popen string nat
  | Terminate nat
  | Wait nat
  | Kill nat
  | JoinStdout
  | JoinStderr

text \<open>
  A \<open>CaptureWorker\<close>. \<open>process\<close> is the pid of the \<open>Popen\<close> handle; the two thread
  fields say whether the reader thread has been created.
\<close>

record capture_worker =
  device_id :: string
  config :: "(string \<times> json) list"
  process :: "nat option"
  stdout_thread :: bool
  stderr_thread :: bool
  is_running :: bool
  events_count :: nat
  error_count :: nat
  started_at :: "real option"
  session_id :: "int option"

definition CaptureWorker_init :: "string \<Rightarrow> (string \<times> json) list \<Rightarrow> capture_worker" where
  "CaptureWorker_init dev cfg =
     \<lparr>device_id = dev, config = cfg, process = None, stdout_thread = False,
      stderr_thread = False, is_running = False, events_count = 0, error_count = 0,
      started_at = None, session_id = None\<rparr>"

text \<open>
  \<open>CaptureWorker.start\<close>. \<open>popen\<close> is what \<open>subprocess.Popen\<close> does: the pid of the new
  process, or \<open>None\<close> when it raises; \<open>now\<close> is \<open>time.time()\<close>.
\<close>

definition start :: "capture_worker \<Rightarrow> int \<Rightarrow> nat option \<Rightarrow> real
                       \<Rightarrow> bool \<times> capture_worker \<times> os_action list" where
  "start w sid popen now =
     (if is_running w then (False, w, [])
      else case popen of
             None \<Rightarrow> (False, w, [])
           | Some pid \<Rightarrow>
               (True,
                w\<lparr>process := Some pid, session_id := Some sid, is_running := True,
                  started_at := Some now, events_count := 0, error_count := 0,
                  stdout_thread := True, stderr_thread := True\<rparr>,
                [Popen (device_id w) pid]))"

text \<open>
  What \<open>terminate()\<close> followed by \<open>wait(timeout=5)\<close> does in \<open>CaptureWorker.stop\<close>: the
  process exits in time; the wait times out and the kill goes through; the wait times
  out and the kill or the second wait raises; or another exception is raised.
\<close>

datatype wait_outcome = Exited | TimeoutExpired | TimeoutKillRaises | OtherException

datatype stop_error = KillError

text \<open>\<open>CaptureWorker.stop\<close>; the \<open>finally\<close> clause clears \<open>is_running\<close> on every path into the \<open>try\<close>.\<close>

definition stop :: "capture_worker \<Rightarrow> wait_outcome
                      \<Rightarrow> (stop_error + bool) \<times> capture_worker \<times> os_action list" where
  "stop w wo =
     (case process w of
        None \<Rightarrow> (Inr False, w, [])
      | Some pid \<Rightarrow>
          if \<not> is_running w then (Inr False, w, [])
          else
            let w' = w\<lparr>is_running := False\<rparr>;
                joins = (if stdout_thread w then [JoinStdout] else [])
                        @ (if stderr_thread w then [JoinStderr] else [])
            in case wo of
                 Exited \<Rightarrow> (Inr True, w', [Terminate pid, Wait pid] @ joins)
               | TimeoutExpired \<Rightarrow>
                   (Inr True, w', [Terminate pid, Wait pid, Kill pid, Wait pid] @ joins)
               | TimeoutKillRaises \<Rightarrow> (Inl KillError, w', [Terminate pid, Wait pid, Kill pid])
               | OtherException \<Rightarrow> (Inr False, w', [Terminate pid]))"

subsection \<open>The stdout reader loop\<close>











subsection \<open>The process manager\<close>

text \<open>
  \<open>workers\<close> is the registry dict. \<open>retired\<close> holds the worker objects the registry has
  let go of (popped after a stop, or replaced by a new worker): their reader threads
  still refer to them. \<open>os_trace\<close> records the operating-system calls made so far.
\<close>

record manager =
  workers :: "string \<rightharpoonup> capture_worker"
  retired :: "capture_worker list"
  os_trace :: "os_action list"

definition ProcessManager_init :: manager where
  "ProcessManager_init = \<lparr>workers = Map.empty, retired = [], os_trace = []\<rparr>"

text \<open>\<open>device_id in self.workers and self.workers[device_id].is_running\<close>\<close>

definition device_running :: "manager \<Rightarrow> string \<Rightarrow> bool" where
  "device_running m dev = (case workers m dev of None \<Rightarrow> False | Some old \<Rightarrow> is_running old)"

text \<open>
  \<open>ProcessManager.start_capture\<close>. Its body has no \<open>await\<close>, so the event loop runs it in
  one piece. A worker whose launch fails is dropped.
\<close>

definition start_capture :: "manager \<Rightarrow> string \<Rightarrow> (string \<times> json) list \<Rightarrow> int \<Rightarrow> nat option
                               \<Rightarrow> real \<Rightarrow> bool \<times> manager" where
  "start_capture m dev cfg sid popen now =
     (if device_running m dev then (False, m)
      else
        let worker = CaptureWorker_init dev cfg;
            (success, worker', acts) = start worker sid popen now
        in if success
           then (True,
                 m\<lparr>workers := (workers m)(dev \<mapsto> worker'),
                   retired := (case workers m dev of None \<Rightarrow> retired m
                               | Some old \<Rightarrow> retired m @ [old]),
                   os_trace := os_trace m @ acts\<rparr>)
           else (False, m\<lparr>os_trace := os_trace m @ acts\<rparr>))"

text \<open>\<open>ProcessManager.stop_capture\<close>; an exception of \<open>stop\<close> passes through.\<close>

definition stop_capture :: "manager \<Rightarrow> string \<Rightarrow> wait_outcome \<Rightarrow> (stop_error + bool) \<times> manager" where
  "stop_capture m dev wo =
     (case workers m dev of
        None \<Rightarrow> (Inr False, m)
      | Some worker \<Rightarrow>
          let (res, worker', acts) = stop worker wo;
              m' = m\<lparr>os_trace := os_trace m @ acts\<rparr>
          in case res of
               Inr True \<Rightarrow>
                 (Inr True, m'\<lparr>workers := (workers m)(dev := None),
                                retired := retired m @ [worker']\<rparr>)
             | _ \<Rightarrow> (res, m'\<lparr>workers := (workers m)(dev \<mapsto> worker')\<rparr>))"

text \<open>
  What can happen to a manager: a start request, a stop request, and the stdout reader
  of a worker (registered or retired) reaching the end of its stream, which runs the
  \<open>finally\<close> clause of \<open>_read_stdout\<close>.
\<close>

datatype sup_event =
    StartCapture string "(string \<times> json) list" int "nat option" real
  | StopCapture string wait_outcome
  | StdoutEnd string
  | RetiredStdoutEnd nat

fun sup_step :: "manager \<Rightarrow> sup_event \<Rightarrow> manager" where
  "sup_step m (StartCapture dev cfg sid popen now) = snd (start_capture m dev cfg sid popen now)"
| "sup_step m (StopCapture dev wo) = snd (stop_capture m dev wo)"
| "sup_step m (StdoutEnd dev) =
     (case workers m dev of
        None \<Rightarrow> m
      | Some w \<Rightarrow> m\<lparr>workers := (workers m)(dev \<mapsto> w\<lparr>is_running := False\<rparr>)\<rparr>)"
| "sup_step m (RetiredStdoutEnd i) =
     (if i < length (retired m)
      then m\<lparr>retired := (retired m)[i := (retired m ! i)\<lparr>is_running := False\<rparr>]\<rparr>
      else m)"

definition sup_run :: "manager \<Rightarrow> sup_event list \<Rightarrow> manager" where
  "sup_run m evs = foldl sup_step m evs"

text \<open>All worker objects of a device that are running: the registered one and the retired ones.\<close>

definition running_workers :: "manager \<Rightarrow> string \<Rightarrow> capture_worker list" where
  "running_workers m dev =
     filter is_running
       ((case workers m dev of None \<Rightarrow> [] | Some w \<Rightarrow> [w])
        @ filter (\<lambda>w. device_id w = dev) (retired m))"

text \<open>
  Start requests for one device served one after the other; each request brings its
  configuration, session id, the outcome of the launch and the clock.
\<close>

fun start_attempts :: "manager \<Rightarrow> string \<Rightarrow> ((string \<times> json) list \<times> int \<times> nat option \<times> real) list
                         \<Rightarrow> bool list \<times> manager" where
  "start_attempts m dev [] = ([], m)"
| "start_attempts m dev ((cfg, sid, popen, now) # rest) =
     (let (r, m') = start_capture m dev cfg sid popen now;
          (rs, m'') = start_attempts m' dev rest
      in (r # rs, m''))"

fun stop_attempts :: "manager \<Rightarrow> string \<Rightarrow> wait_outcome list
                        \<Rightarrow> (stop_error + bool) list \<times> manager" where
  "stop_attempts m dev [] = ([], m)"
| "stop_attempts m dev (wo # rest) =
     (let (r, m') = stop_capture m dev wo;
          (rs, m'') = stop_attempts m' dev rest
      in (r # rs, m''))"

definition is_Popen :: "os_action \<Rightarrow> bool" where
  "is_Popen a = (case a of Popen d p \<Rightarrow> True | _ \<Rightarrow> False)"

definition launch_possible :: "((string \<times> json) list \<times> int \<times> nat option \<times> real) list \<Rightarrow> bool" where
  "launch_possible attempts = list_ex (\<lambda>(cfg, sid, popen, now). popen \<noteq> None) attempts"

text \<open>
  The registry invariant: a worker is registered under its own device id, and no retired
  worker is running.
\<close>

definition sup_inv :: "manager \<Rightarrow> bool" where
  "sup_inv m = ((\<forall>d w. workers m d = Some w \<longrightarrow> device_id w = d) \<and>
               (\<forall>w\<in>set (retired m). \<not> is_running w))"

text \<open>Managers for the concrete runs: one capture started on cam1, and the same after its stdout ended.\<close>

definition manager_cam1 :: manager where
  "manager_cam1 = sup_run ProcessManager_init [StartCapture ''cam1'' [] 1 (Some 4711) 0]"

definition manager_cam1_ended :: manager where
  "manager_cam1_ended =
     sup_run ProcessManager_init [StartCapture ''cam1'' [] 1 (Some 4711) 0, StdoutEnd ''cam1'']"

section \<open>Ingestion (backend/app/api/ingest.py, services/publisher.py, process\_manager.on\_event)\<close>

text \<open>The pydantic model \<open>EventData\<close>.\<close>

record event_data =
  timestamp :: string
  student_id :: "string option"
  face_match_confidence :: "real option"
  emotion :: string
  emotion_confidence :: real
  probabilities :: "(string \<times> real) list"
  metrics :: "(string \<times> real) list"
  event_ear :: "real option"
  head_pose :: "(string \<times> real) list option"
  source_device :: string
  raw :: "(string \<times> json) list option"

text \<open>\<open>IngestRequest\<close>: a batch, or the fields of one event, all optional.\<close>

record ingest_request =
  events :: "event_data list option"
  req_timestamp :: "string option"
  req_student_id :: "string option"
  req_face_match_confidence :: "real option"
  req_emotion :: "string option"
  req_emotion_confidence :: "real option"
  req_probabilities :: "(string \<times> real) list option"
  req_metrics :: "(string \<times> real) list option"
  req_ear :: "real option"
  req_head_pose :: "(string \<times> real) list option"
  req_source_device :: "string option"
  req_raw :: "(string \<times> json) list option"

record ingest_response =
  status :: string
  inserted :: nat
  message :: "string option"

datatype http_error = HTTP_400_BAD_REQUEST string

text \<open>
  The collaborators. Whether the n-th call of \<open>db.execute\<close>, of \<open>redis.publish\<close> and of
  the fallback file write goes through is given by the environment; \<open>now_iso\<close> is
  \<open>datetime.utcnow().isoformat()\<close>.
\<close>

record env =
  db_execute_ok :: "nat \<Rightarrow> bool"
  redis_publish_ok :: "nat \<Rightarrow> bool"
  fallback_write_ok :: "nat \<Rightarrow> bool"
  now_iso :: string

text \<open>
  What the collaborators hold: the rows of the events table, the messages published per
  channel, the lines of the fallback file, the error log, and the calls made so far. A
  row is identified with the event it is built from; its parsed timestamp and the JSON
  renderings of its columns are not modelled.
\<close>

record world =
  db_rows :: "event_data list"
  db_calls :: nat
  published :: "(string \<times> event_data) list"
  publish_calls :: nat
  fallback_log :: "event_data list"
  fallback_calls :: nat
  error_log :: "string list"

text \<open>\<open>insert_event\<close>: every exception inside it is logged and turned into \<open>False\<close>.\<close>

definition insert_event :: "env \<Rightarrow> event_data \<Rightarrow> world \<Rightarrow> bool \<times> world" where
  "insert_event e event w =
     (if db_execute_ok e (db_calls w)
      then (True, w\<lparr>db_calls := db_calls w + 1, db_rows := db_rows w @ [event]\<rparr>)
      else (False, w\<lparr>db_calls := db_calls w + 1,
                     error_log := error_log w @ [''Failed to insert event'']\<rparr>))"

text \<open>\<open>write_to_fallback\<close>: a failure of the write is logged only.\<close>

definition write_to_fallback :: "env \<Rightarrow> event_data \<Rightarrow> world \<Rightarrow> world" where
  "write_to_fallback e event w =
     (if fallback_write_ok e (fallback_calls w)
      then w\<lparr>fallback_calls := fallback_calls w + 1, fallback_log := fallback_log w @ [event]\<rparr>
      else w\<lparr>fallback_calls := fallback_calls w + 1,
             error_log := error_log w @ [''Failed to write to fallback'']\<rparr>)"

text \<open>\<open>publish_event\<close> of publisher.py: it does not raise.\<close>

definition publish_event :: "env \<Rightarrow> string \<Rightarrow> event_data \<Rightarrow> world \<Rightarrow> world" where
  "publish_event e dev event w =
     (if redis_publish_ok e (publish_calls w)
      then w\<lparr>publish_calls := publish_calls w + 1,
             published := published w @ [(''live:'' @ dev, event)]\<rparr>
      else w\<lparr>publish_calls := publish_calls w + 1,
             error_log := error_log w @ [''Failed to publish to Redis'']\<rparr>)"

text \<open>The \<open>for event in events\<close> loop of \<open>ingest\<close>, on the counters \<open>inserted\<close> and \<open>failed\<close>.\<close>

fun ingest_loop :: "env \<Rightarrow> event_data list \<Rightarrow> nat \<times> nat \<times> world \<Rightarrow> nat \<times> nat \<times> world" where
  "ingest_loop e [] st = st"
| "ingest_loop e (event # rest) (ins, failed, w) =
     (let (success, w1) = insert_event e event w in
      if success
      then ingest_loop e rest (ins + 1, failed, publish_event e (source_device event) event w1)
      else ingest_loop e rest (ins, failed + 1, write_to_fallback e event w1))"

text \<open>\<open>str\<close> of a natural number.\<close>

fun str_nat :: "nat \<Rightarrow> string" where
  "str_nat n = (if n < 10 then [char_of (48 + n)]
                else str_nat (n div 10) @ [char_of (48 + n mod 10)])"

text \<open>
  The single-event branch builds an \<open>EventData\<close>; the required fields \<open>emotion\<close> and
  \<open>emotion_confidence\<close> must be present, or the validation error becomes a 400.
\<close>

definition single_event :: "env \<Rightarrow> ingest_request \<Rightarrow> event_data option" where
  "single_event e request =
     (case (req_emotion request, req_emotion_confidence request) of
        (Some em, Some conf) \<Rightarrow>
          Some \<lparr>timestamp = (case req_timestamp request of
                               None \<Rightarrow> now_iso e
                             | Some t \<Rightarrow> if t = [] then now_iso e else t),
                student_id = req_student_id request,
                face_match_confidence = req_face_match_confidence request,
                emotion = em,
                emotion_confidence = conf,
                probabilities = (case req_probabilities request of None \<Rightarrow> [] | Some p \<Rightarrow> p),
                metrics = (case req_metrics request of None \<Rightarrow> [] | Some p \<Rightarrow> p),
                event_ear = req_ear request,
                head_pose = req_head_pose request,
                source_device = (case req_source_device request of
                                   None \<Rightarrow> ''default''
                                 | Some d \<Rightarrow> if d = [] then ''default'' else d),
                raw = req_raw request\<rparr>
      | _ \<Rightarrow> None)"

text \<open>The handler of \<open>POST /ingest\<close>, after the API key check.\<close>

definition ingest :: "env \<Rightarrow> ingest_request \<Rightarrow> world \<Rightarrow> (http_error + ingest_response) \<times> world" where
  "ingest e request w =
     (let batch = (case events request of None \<Rightarrow> [] | Some evs \<Rightarrow> evs) in
      case (if batch \<noteq> [] then Some batch
            else (case single_event e request of None \<Rightarrow> None | Some ev \<Rightarrow> Some [ev])) of
        None \<Rightarrow> (Inl (HTTP_400_BAD_REQUEST ''Invalid event data''), w)
      | Some evs \<Rightarrow>
          let (ins, failed, w') = ingest_loop e evs (0, 0, w)
          in (Inr \<lparr>status = ''ok'', inserted = ins,
                    message = (if failed > 0
                               then Some (str_nat failed @ '' events written to fallback'')
                               else None)\<rparr>, w'))"

text \<open>
  \<open>on_event\<close>, the callback \<open>start_capture\<close> gives to its worker. \<open>parsed\<close> is what
  \<open>EventData(**event_payload)\<close> yields after the two \<open>setdefault\<close> calls, \<open>None\<close> when it
  raises.
\<close>

definition on_event :: "env \<Rightarrow> string \<Rightarrow> event_data option \<Rightarrow> world \<Rightarrow> world" where
  "on_event e dev parsed w =
     (case parsed of
        None \<Rightarrow> w\<lparr>error_log := error_log w @ [''Invalid event payload from '' @ dev]\<rparr>
      | Some event \<Rightarrow>
          let (success, w1) = insert_event e event w in
          if success then publish_event e dev event w1
          else w1\<lparr>error_log := error_log w1 @ [''Failed to insert event for '' @ dev]\<rparr>)"

text \<open>A batch request, and the events and collaborators of the concrete runs.\<close>

definition batch_request :: "event_data list \<Rightarrow> ingest_request" where
  "batch_request evs =
     \<lparr>events = Some evs, req_timestamp = None, req_student_id = None,
      req_face_match_confidence = None, req_emotion = None, req_emotion_confidence = None,
      req_probabilities = None, req_metrics = None, req_ear = None, req_head_pose = None,
      req_source_device = None, req_raw = None\<rparr>"

definition event_cam1 :: event_data where
  "event_cam1 =
     \<lparr>timestamp = ''2024-01-01T00:00:00'', student_id = None, face_match_confidence = None,
      emotion = ''Neutral'', emotion_confidence = 0.65, probabilities = [], metrics = [],
      event_ear = None, head_pose = None, source_device = ''cam1'', raw = None\<rparr>"

definition world_empty :: world where
  "world_empty =
     \<lparr>db_rows = [], db_calls = 0, published = [], publish_calls = 0, fallback_log = [],
      fallback_calls = 0, error_log = []\<rparr>"

definition env_db_down :: env where
  "env_db_down =
     \<lparr>db_execute_ok = (\<lambda>n. False), redis_publish_ok = (\<lambda>n. True),
      fallback_write_ok = (\<lambda>n. True), now_iso = ''2024-01-01T00:00:00''\<rparr>"

text \<open>The database takes the first call only; the relay is down.\<close>

definition env_first_only :: env where
  "env_first_only =
     \<lparr>db_execute_ok = (\<lambda>n. n = 0), redis_publish_ok = (\<lambda>n. False),
      fallback_write_ok = (\<lambda>n. True), now_iso = ''2024-01-01T00:00:00''\<rparr>"

text \<open>
  The events of a batch whose \<open>db.execute\<close> call goes through, and those whose call
  fails, when the first call of the batch is call number \<open>n\<close>.
\<close>

fun persisted :: "env \<Rightarrow> nat \<Rightarrow> event_data list \<Rightarrow> event_data list" where
  "persisted e n [] = []"
| "persisted e n (ev # rest) =
     (if db_execute_ok e n then ev # persisted e (n + 1) rest else persisted e (n + 1) rest)"

fun not_persisted :: "env \<Rightarrow> nat \<Rightarrow> event_data list \<Rightarrow> event_data list" where
  "not_persisted e n [] = []"
| "not_persisted e n (ev # rest) =
     (if db_execute_ok e n then not_persisted e (n + 1) rest
      else ev # not_persisted e (n + 1) rest)"

text \<open>Two worlds that agree on the database and on the fallback file.\<close>

definition same_store :: "world \<Rightarrow> world \<Rightarrow> bool" where
  "same_store w1 w2 =
     (db_rows w1 = db_rows w2 \<and> db_calls w1 = db_calls w2 \<and>
      fallback_log w1 = fallback_log w2 \<and> fallback_calls w1 = fallback_calls w2)"

section \<open>Broadcast (backend/app/api/ws.py)\<close>









subsection \<open>The forwarding tasks\<close>













section \<open>Properties of the MetricsEngine\<close>

lemma clip_in_unit: "in_unit (clip x 0 1)"
  by (simp add: in_unit_def clip_def)


lemma Risk_in_unit: "Risk s b f v = Inr r \<Longrightarrow> in_unit r"
  by (auto simp: Risk_def Let_def clip_in_unit split: if_splits)

lemma Fatigue_in_unit: "in_unit (Fatigue b)"
  by (simp add: Fatigue_def Let_def clip_in_unit) (simp add: in_unit_def)

lemma rectangular_same_length:
  "list_all (\<lambda>r. length r = n) rows \<Longrightarrow> rectangular rows"
  by (cases rows) (auto simp: rectangular_def list_all_iff)

lemma Risk_defined:
  "list_all (\<lambda>b. length (probs b) = 7) (long_buf s) \<Longrightarrow>
   Risk s b f v =
     Inr (if length (long_buf s) > 10
          then clip (0.5 * neutral_sad_fraction (map top_label (long_buf s)) + 0.3 * f
                     + 0.2 * clip (mean_std (map probs (long_buf s)) / 0.5) 0 1) 0 1
          else clip (0.5 * b + 0.3 * f + 0.2 * v) 0 1)"
proof -
  assume "list_all (\<lambda>b. length (probs b) = 7) (long_buf s)"
  then have "list_all (\<lambda>r. length r = 7) (map probs (long_buf s))"
    by (simp add: list_all_iff)
  then have "rectangular (map probs (long_buf s))"
    by (rule rectangular_same_length)
  then show ?thesis
    by (simp add: Risk_def Let_def)
qed

lemma compute_defined:
  assumes ne: "buf s \<noteq> []"
      and short: "list_all (\<lambda>b. length (probs b) = 7) (buf s)"
      and long: "list_all (\<lambda>b. length (probs b) = 7) (long_buf s)"
  shows "\<exists>r. Risk s (Boredom (map probs (buf s)) (map top_label (buf s)))
                 (Fr (map probs (buf s))) (Vol (map probs (buf s))) = Inr r \<and>
         compute s =
           (Inr (Some \<lparr>attentiveness = Att (probs (last (buf s))),
                       positivity = Pos (probs (last (buf s))),
                       engagement = clip (ema_update (ema_alpha s) (eng_ema s)
                                            (Eng_raw (probs (last (buf s))))) 0 1,
                       boredom = Boredom (map probs (buf s)) (map top_label (buf s)),
                       frustration = Fr (map probs (buf s)),
                       volatility = Vol (map probs (buf s)),
                       distraction = Distraction (center_vel s) (probs (last (buf s))),
                       fatigue = Fatigue (buf s), risk = r\<rparr>),
            s\<lparr>eng_ema := Some (ema_update (ema_alpha s) (eng_ema s)
                                 (Eng_raw (probs (last (buf s)))))\<rparr>)"
proof -
  have rect: "rectangular (map probs (buf s))"
    using short by (intro rectangular_same_length[where n = 7]) (simp add: list_all_iff)
  have len: "length (probs (last (buf s))) = 7"
    using ne short by (simp add: list_all_iff)
  obtain r where r: "Risk s (Boredom (map probs (buf s)) (map top_label (buf s)))
                 (Fr (map probs (buf s))) (Vol (map probs (buf s))) = Inr r"
    using Risk_defined[OF long] by blast
  show ?thesis
    using ne rect len r by (simp add: compute_def Let_def last_map)
qed


lemma compute_in_unit:
  assumes "compute s = (Inr (Some m), s')"
  shows "all_in_unit m"
proof -
  from assms obtain r where
    r: "Risk s (Boredom (map probs (buf s)) (map top_label (buf s)))
          (Fr (map probs (buf s))) (Vol (map probs (buf s))) = Inr r"
    and m: "m = \<lparr>attentiveness = Att (last (map probs (buf s))),
                 positivity = Pos (last (map probs (buf s))),
                 engagement = clip (ema_update (ema_alpha s) (eng_ema s)
                                      (Eng_raw (last (map probs (buf s))))) 0 1,
                 boredom = Boredom (map probs (buf s)) (map top_label (buf s)),
                 frustration = Fr (map probs (buf s)),
                 volatility = Vol (map probs (buf s)),
                 distraction = Distraction (center_vel s) (last (map probs (buf s))),
                 fatigue = Fatigue (buf s), risk = r\<rparr>"
    by (auto simp: compute_def Let_def split: if_splits sum.splits)
  have "in_unit r" using r by (rule Risk_in_unit)
  then show ?thesis
    by (simp add: m all_in_unit_def Att_def Pos_def Boredom_def Fr_def Vol_def
        Distraction_def Let_def clip_in_unit Fatigue_in_unit)
qed

lemma set_deque_append: "set (deque_append n xs x) \<subseteq> insert x (set xs)"
  by (auto simp: deque_append_def Let_def dest: in_set_dropD)

lemma last_deque_append:
  assumes "deque_append n xs x \<noteq> []"
  shows "last (deque_append n xs x) = x"
proof -
  have "n \<noteq> 0"
  proof
    assume "n = 0"
    then have "deque_append n xs x = []" by (simp add: deque_append_def Let_def)
    with assms show False by simp
  qed
  then have "length (xs @ [x]) - n < length (xs @ [x])"
    by simp
  then have "last (drop (length (xs @ [x]) - n) (xs @ [x])) = last (xs @ [x])"
    by (rule last_drop)
  then show ?thesis by (simp add: deque_append_def Let_def)
qed

lemma deque_append_nonempty: "0 < n \<Longrightarrow> deque_append n xs x \<noteq> []"
  by (simp add: deque_append_def Let_def)

lemma push_windows:
  assumes "push s x = Inr s'"
  shows "set (buf s') \<subseteq> insert x (set (buf s))"
    and "set (long_buf s') \<subseteq> insert x (set (long_buf s))"
    and "eng_ema s' = eng_ema s"
    and "ema_alpha s' = ema_alpha s"
    and "buf s' \<noteq> []"
proof -
  let ?b = "deque_append (short_w s) (buf s) x"
  from assms have ne: "?b \<noteq> []"
    by (auto simp: push_def Let_def split: if_splits)
  then have lastb: "last ?b = x" by (rule last_deque_append)
  from assms ne have b: "buf s' = ?b"
    and l: "long_buf s' = deque_append (long_w s) (long_buf s) x"
    and e: "eng_ema s' = eng_ema s" and a: "ema_alpha s' = ema_alpha s"
    by (auto simp: push_def Let_def lastb split: if_splits option.splits prod.splits)
  show "set (buf s') \<subseteq> insert x (set (buf s))" unfolding b by (rule set_deque_append)
  show "set (long_buf s') \<subseteq> insert x (set (long_buf s))" unfolding l by (rule set_deque_append)
  show "eng_ema s' = eng_ema s" by (rule e)
  show "ema_alpha s' = ema_alpha s" by (rule a)
  show "buf s' \<noteq> []" unfolding b by (rule ne)
qed

lemma compute_windows:
  "buf (snd (compute s)) = buf s \<and> long_buf (snd (compute s)) = long_buf s \<and>
   ema_alpha (snd (compute s)) = ema_alpha s"
  by (simp add: compute_def Let_def split: sum.splits)

lemma pushed_append: "pushed (xs @ ys) = pushed xs @ pushed ys"
  by (induction xs rule: pushed.induct) simp_all

lemma run_snoc: "run s (ops @ [a]) = step (run s ops) a"
  by (simp add: run_def)

lemma run_windows:
  "set (buf (run s ops)) \<subseteq> set (buf s) \<union> set (pushed ops) \<and>
   set (long_buf (run s ops)) \<subseteq> set (long_buf s) \<union> set (pushed ops)"
proof (induction ops rule: rev_induct)
  case Nil
  show ?case by (simp add: run_def)
next
  case (snoc a ops)
  show ?case
  proof (cases a)
    case (Push x)
    show ?thesis
    proof (cases "push (run s ops) x")
      case (Inl e)
      with snoc Push show ?thesis by (auto simp: run_snoc pushed_append)
    next
      case (Inr s')
      from push_windows(1,2)[OF Inr] snoc Push Inr show ?thesis
        by (auto simp: run_snoc pushed_append)
    qed
  next
    case Compute
    with snoc show ?thesis by (simp add: run_snoc pushed_append compute_windows)
  qed
qed

lemma run_init_wellformed:
  assumes "\<forall>x\<in>set (pushed ops). length (probs x) = 7"
  shows "list_all (\<lambda>b. length (probs b) = 7) (buf (run (MetricsEngine_init sw lw al) ops))"
    and "list_all (\<lambda>b. length (probs b) = 7) (long_buf (run (MetricsEngine_init sw lw al) ops))"
  using assms run_windows[of "MetricsEngine_init sw lw al" ops]
  by (auto simp: list_all_iff MetricsEngine_init_def)

text \<open>
  Claim C1. After any history of pushes and computes from a fresh engine in which every
  pushed probability vector has seven non-negative entries summing to 1 within a
  tolerance, and whose short window is not empty, \<open>compute\<close> returns the dict of all
  nine metrics and each of them lies in the closed interval from 0 to 1.
\<close>

theorem compute_metrics_in_unit_interval:
  assumes "s = run (MetricsEngine_init sw lw alpha) ops"
      and "buf s \<noteq> []"
      and "\<forall>x\<in>set (pushed ops). prob_vector eps (probs x)"
  shows "\<exists>m s'. compute s = (Inr (Some m), s') \<and> all_in_unit m"
proof -
  have len: "\<forall>x\<in>set (pushed ops). length (probs x) = 7"
    using assms(3) by (simp add: prob_vector_def)
  have "\<exists>m s'. compute s = (Inr (Some m), s')"
    using compute_defined[OF assms(2)] run_init_wellformed[OF len, of sw lw alpha]
    unfolding assms(1)[symmetric] by blast
  then show ?thesis using compute_in_unit by blast
qed

text \<open>
  Claim C4. In every state with a non-empty short window and seven-entry probability
  vectors in both windows, \<open>compute\<close> returns metrics whose risk is chosen by the size of
  the long window: above 10 samples it is the clipped sum of half the long-window
  Neutral/Sad fraction, 0.3 times the frustration and 0.2 times the clipped long-window
  mean standard deviation over 0.5; otherwise it is the clipped sum of half the boredom,
  0.3 times the frustration and 0.2 times the volatility.
\<close>

theorem risk_formula_by_long_window_size:
  assumes "buf s \<noteq> []"
      and "list_all (\<lambda>b. length (probs b) = 7) (buf s)"
      and "list_all (\<lambda>b. length (probs b) = 7) (long_buf s)"
  shows "\<exists>m s'. compute s = (Inr (Some m), s') \<and>
           risk m =
             (if length (long_buf s) > 10
              then clip (0.5 * neutral_sad_fraction (map top_label (long_buf s))
                         + 0.3 * frustration m
                         + 0.2 * clip (mean_std (map probs (long_buf s)) / 0.5) 0 1) 0 1
              else clip (0.5 * boredom m + 0.3 * frustration m + 0.2 * volatility m) 0 1)"
proof -
  from compute_defined[OF assms] obtain r where
    r: "Risk s (Boredom (map probs (buf s)) (map top_label (buf s)))
          (Fr (map probs (buf s))) (Vol (map probs (buf s))) = Inr r"
    and c: "compute s =
           (Inr (Some \<lparr>attentiveness = Att (probs (last (buf s))),
                       positivity = Pos (probs (last (buf s))),
                       engagement = clip (ema_update (ema_alpha s) (eng_ema s)
                                            (Eng_raw (probs (last (buf s))))) 0 1,
                       boredom = Boredom (map probs (buf s)) (map top_label (buf s)),
                       frustration = Fr (map probs (buf s)),
                       volatility = Vol (map probs (buf s)),
                       distraction = Distraction (center_vel s) (probs (last (buf s))),
                       fatigue = Fatigue (buf s), risk = r\<rparr>),
            s\<lparr>eng_ema := Some (ema_update (ema_alpha s) (eng_ema s)
                                 (Eng_raw (probs (last (buf s)))))\<rparr>)"
    by blast
  from r Risk_defined[OF assms(3)] have
    "r = (if length (long_buf s) > 10
          then clip (0.5 * neutral_sad_fraction (map top_label (long_buf s))
                     + 0.3 * Fr (map probs (buf s))
                     + 0.2 * clip (mean_std (map probs (long_buf s)) / 0.5) 0 1) 0 1
          else clip (0.5 * Boredom (map probs (buf s)) (map top_label (buf s))
                     + 0.3 * Fr (map probs (buf s)) + 0.2 * Vol (map probs (buf s))) 0 1)"
    by simp
  with c show ?thesis by simp
qed











lemma run_push_neutral:
  "run (MetricsEngine_init 30 300 0.2) [Push sample_neutral] =
     \<lparr>short_w = 30, long_w = 300, ema_alpha = 0.2, buf = [sample_neutral],
      long_buf = [sample_neutral], center_vel = [0], prev_center = None, eng_ema = None\<rparr>"
  by (simp add: run_def MetricsEngine_init_def push_def deque_append_def Let_def
      sample_neutral_def)

text \<open>
  The hypotheses of C1 hold after one push of the all-Neutral sample.
\<close>

theorem compute_metrics_in_unit_interval_witness:
  "buf (run (MetricsEngine_init 30 300 0.2) [Push sample_neutral]) \<noteq> [] \<and>
   list_all (\<lambda>x. prob_vector 0 (probs x)) (pushed [Push sample_neutral]) \<and>
   (\<exists>m s'. compute (run (MetricsEngine_init 30 300 0.2) [Push sample_neutral])
              = (Inr (Some m), s') \<and> all_in_unit m)"
proof -
  have h1: "buf (run (MetricsEngine_init 30 300 0.2) [Push sample_neutral]) \<noteq> []"
    using run_push_neutral by simp
  have h2: "\<forall>x\<in>set (pushed [Push sample_neutral]). prob_vector 0 (probs x)"
    by (simp add: prob_vector_def sample_neutral_def)
  from compute_metrics_in_unit_interval[OF refl h1 h2] h1 h2 show ?thesis
    by (simp add: list_all_iff)
qed

text \<open>
  The hypotheses of C4 hold for eleven Neutral samples, where the long-window branch is
  the one taken.
\<close>

theorem risk_formula_by_long_window_size_witness:
  "buf eleven_neutral \<noteq> [] \<and>
   list_all (\<lambda>b. length (probs b) = 7) (buf eleven_neutral) \<and>
   list_all (\<lambda>b. length (probs b) = 7) (long_buf eleven_neutral) \<and>
   length (long_buf eleven_neutral) > 10 \<and>
   (\<exists>m s'. compute eleven_neutral = (Inr (Some m), s') \<and>
      risk m = clip (0.5 * 1 + 0.3 * frustration m
                      + 0.2 * clip (mean_std (map probs (long_buf eleven_neutral)) / 0.5) 0 1) 0 1)"
proof -
  have h1: "buf eleven_neutral \<noteq> []"
    by (simp add: eleven_neutral_def)
  have h2: "list_all (\<lambda>b. length (probs b) = 7) (buf eleven_neutral)"
    by (simp add: eleven_neutral_def list_all_iff sample_neutral_def)
  have h3: "list_all (\<lambda>b. length (probs b) = 7) (long_buf eleven_neutral)"
    by (simp add: eleven_neutral_def list_all_iff sample_neutral_def)
  have h4: "length (long_buf eleven_neutral) > 10"
    by (simp add: eleven_neutral_def)
  have h5: "neutral_sad_fraction (map top_label (long_buf eleven_neutral)) = 1"
    by (simp add: eleven_neutral_def neutral_sad_fraction_def sample_neutral_def)
  from risk_formula_by_long_window_size[OF h1 h2 h3] h1 h2 h3 h4 h5 show ?thesis
    by auto
qed


section \<open>Properties of the worker supervisor\<close>








subsection \<open>The process manager\<close>

lemma start_cases:
  "start (CaptureWorker_init dev cfg) sid popen now =
     (case popen of
        None \<Rightarrow> (False, CaptureWorker_init dev cfg, [])
      | Some pid \<Rightarrow>
          (True,
           (CaptureWorker_init dev cfg)\<lparr>process := Some pid, session_id := Some sid,
              is_running := True, started_at := Some now, events_count := 0,
              error_count := 0, stdout_thread := True, stderr_thread := True\<rparr>,
           [Popen dev pid]))"
  by (simp add: start_def CaptureWorker_init_def split: option.splits)

lemma start_capture_running:
  "device_running m dev \<Longrightarrow> start_capture m dev cfg sid popen now = (False, m)"
  by (simp add: start_capture_def)

lemma start_capture_failed_launch:
  "\<not> device_running m dev \<Longrightarrow> start_capture m dev cfg sid None now = (False, m)"
  by (simp add: start_capture_def start_cases)

lemma start_capture_launch_state:
  assumes "\<not> device_running m dev"
  shows "start_capture m dev cfg sid (Some pid) now =
           (True,
            m\<lparr>workers := (workers m)(dev \<mapsto>
                   (CaptureWorker_init dev cfg)\<lparr>process := Some pid, session_id := Some sid,
                      is_running := True, started_at := Some now, events_count := 0,
                      error_count := 0, stdout_thread := True, stderr_thread := True\<rparr>),
              retired := (case workers m dev of None \<Rightarrow> retired m
                          | Some old \<Rightarrow> retired m @ [old]),
              os_trace := os_trace m @ [Popen dev pid]\<rparr>)"
  using assms by (simp add: start_capture_def start_cases)

lemma start_capture_launch:
  assumes "\<not> device_running m dev"
  shows "\<exists>m'. start_capture m dev cfg sid (Some pid) now = (True, m') \<and>
              device_running m' dev \<and>
              os_trace m' = os_trace m @ [Popen dev pid]"
  by (simp add: start_capture_launch_state[OF assms] device_running_def)

lemma stop_not_running:
  "\<not> is_running w \<Longrightarrow> stop w wo = (Inr False, w, [])"
  by (simp add: stop_def split: option.splits)

lemma stop_result:
  "stop w wo = (r, w', acts) \<Longrightarrow>
     device_id w' = device_id w \<and> (r = Inr True \<longrightarrow> \<not> is_running w') \<and>
     (is_running w' \<longrightarrow> is_running w)"
  by (auto simp: stop_def Let_def split: option.splits if_splits wait_outcome.splits)

lemma stop_capture_idle:
  assumes "\<not> device_running m dev"
  shows "stop_capture m dev wo = (Inr False, m)"
proof (cases "workers m dev")
  case None
  then show ?thesis by (simp add: stop_capture_def)
next
  case (Some w)
  with assms have "\<not> is_running w" by (simp add: device_running_def)
  then have "stop w wo = (Inr False, w, [])" by (rule stop_not_running)
  moreover have "(workers m)(dev \<mapsto> w) = workers m"
    using Some by (simp add: map_upd_triv)
  ultimately show ?thesis using Some by (simp add: stop_capture_def)
qed

lemma stop_attempts_idle:
  "\<not> device_running m dev \<Longrightarrow>
   stop_attempts m dev wos = (replicate (length wos) (Inr False), m)"
  by (induction wos) (simp_all add: stop_capture_idle)

lemma stdout_end_not_running: "\<not> device_running (sup_step m (StdoutEnd dev)) dev"
  by (simp add: device_running_def split: option.splits)

lemma sup_inv_start:
  assumes "sup_inv m"
  shows "sup_inv (snd (start_capture m dev cfg sid popen now))"
proof (cases "device_running m dev")
  case True
  with assms show ?thesis by (simp add: start_capture_running)
next
  case False
  show ?thesis
  proof (cases popen)
    case None
    with False assms show ?thesis by (simp add: start_capture_failed_launch)
  next
    case (Some pid)
    with False assms show ?thesis
      by (auto simp: start_capture_launch_state sup_inv_def device_running_def
          CaptureWorker_init_def split: option.splits)
  qed
qed

lemma sup_inv_stop:
  assumes "sup_inv m"
  shows "sup_inv (snd (stop_capture m dev wo))"
proof (cases "workers m dev")
  case None
  with assms show ?thesis by (simp add: stop_capture_def)
next
  case (Some w)
  obtain r w' acts where st: "stop w wo = (r, w', acts)"
    by (cases "stop w wo") auto
  from stop_result[OF st] have d: "device_id w' = device_id w"
    and t: "r = Inr True \<longrightarrow> \<not> is_running w'" by simp_all
  from assms Some have dw: "device_id w = dev" by (simp add: sup_inv_def)
  show ?thesis
  proof (cases "r = Inr True")
    case True
    with assms Some st t show ?thesis
      by (auto simp: stop_capture_def sup_inv_def)
  next
    case False
    then have "snd (stop_capture m dev wo) =
                 m\<lparr>os_trace := os_trace m @ acts, workers := (workers m)(dev \<mapsto> w')\<rparr>"
      using Some st by (cases r) (auto simp: stop_capture_def)
    with assms d dw show ?thesis by (auto simp: sup_inv_def)
  qed
qed

lemma sup_inv_step: "sup_inv m \<Longrightarrow> sup_inv (sup_step m ev)"
proof (cases ev)
  case (StartCapture dev cfg sid popen now)
  assume "sup_inv m"
  with StartCapture show ?thesis by (simp add: sup_inv_start)
next
  case (StopCapture dev wo)
  assume "sup_inv m"
  with StopCapture show ?thesis by (simp add: sup_inv_stop)
next
  case (StdoutEnd dev)
  assume "sup_inv m"
  with StdoutEnd show ?thesis by (auto simp: sup_inv_def split: option.splits)
next
  case (RetiredStdoutEnd i)
  assume "sup_inv m"
  with RetiredStdoutEnd show ?thesis
    by (auto simp: sup_inv_def dest!: set_update_subset_insert[THEN subsetD])
qed

lemma sup_inv_run: "sup_inv (sup_run ProcessManager_init evs)"
proof (induction evs rule: rev_induct)
  case Nil
  show ?case by (simp add: sup_run_def sup_inv_def ProcessManager_init_def)
next
  case (snoc ev evs)
  then show ?case by (simp add: sup_run_def sup_inv_step)
qed

lemma sup_inv_running_workers:
  assumes "sup_inv m"
  shows "length (running_workers m dev) \<le> 1"
proof -
  have "filter is_running (filter (\<lambda>w. device_id w = dev) (retired m)) = []"
    using assms by (auto simp: sup_inv_def filter_empty_conv)
  then show ?thesis
    by (simp add: running_workers_def split: option.splits)
qed

lemma start_attempts_running:
  "device_running m dev \<Longrightarrow>
   start_attempts m dev attempts = (replicate (length attempts) False, m)"
  by (induction attempts) (auto simp: start_capture_running)

lemma start_attempts_once:
  assumes "\<not> device_running m dev" "launch_possible attempts"
  shows "\<exists>rs m'. start_attempts m dev attempts = (rs, m') \<and>
                  count_list rs True = 1 \<and>
                  length (filter is_Popen (os_trace m')) =
                    length (filter is_Popen (os_trace m)) + 1"
  using assms
proof (induction attempts)
  case Nil
  then show ?case by (simp add: launch_possible_def)
next
  case (Cons a attempts)
  obtain cfg sid popen now where a: "a = (cfg, sid, popen, now)"
    by (cases a) auto
  show ?case
  proof (cases popen)
    case None
    then have s: "start_capture m dev cfg sid popen now = (False, m)"
      using Cons.prems(1) by (simp add: start_capture_failed_launch)
    from None a Cons.prems(2) have "launch_possible attempts"
      by (simp add: launch_possible_def)
    from Cons.IH[OF Cons.prems(1) this] obtain rs m' where
      "start_attempts m dev attempts = (rs, m')" "count_list rs True = 1"
      "length (filter is_Popen (os_trace m')) = length (filter is_Popen (os_trace m)) + 1"
      by blast
    with a s show ?thesis by simp
  next
    case (Some pid)
    from start_capture_launch[OF Cons.prems(1), of cfg sid pid now] obtain m1 where
      s: "start_capture m dev cfg sid (Some pid) now = (True, m1)"
      and r: "device_running m1 dev"
      and t: "os_trace m1 = os_trace m @ [Popen dev pid]"
      by blast
    have rest: "start_attempts m1 dev attempts = (replicate (length attempts) False, m1)"
      using r by (rule start_attempts_running)
    have none: "count_list (replicate (length attempts) False) True = 0"
      by (induction attempts) simp_all
    show ?thesis
      using a Some s rest t none by (simp add: is_Popen_def)
  qed
qed

text \<open>
  Claim C2. After any sequence of start requests, stop requests and ends of stdout
  streams from the empty registry, at most one worker object of a device is running; a
  start request for a device whose worker is running returns False and leaves the
  manager, with its record of launched processes, unchanged; and of any start requests
  for a device without a running worker that are served one after the other, with no end
  of stream in between and at least one launch that can go through, exactly one returns
  True and exactly one process is launched.
\<close>

theorem at_most_one_running_worker_per_device:
  assumes "m = sup_run ProcessManager_init evs"
  shows "length (running_workers m dev) \<le> 1 \<and>
         (device_running m dev \<longrightarrow> start_capture m dev cfg sid popen now = (False, m)) \<and>
         (\<not> device_running m dev' \<and> launch_possible attempts \<longrightarrow>
            (\<exists>rs m'. start_attempts m dev' attempts = (rs, m') \<and>
                      count_list rs True = 1 \<and>
                      length (filter is_Popen (os_trace m')) =
                        length (filter is_Popen (os_trace m)) + 1))"
  using assms sup_inv_running_workers[OF sup_inv_run, of evs dev]
    start_capture_running[of m dev cfg sid popen now]
    start_attempts_once[of m dev' attempts]
  by blast

text \<open>
  Claim C5. A stop request for a device that has no registered worker, or whose worker
  is not running, returns False and leaves the manager unchanged: no operating-system
  call is made and the registry is as before, so any number of further stop requests
  return False as well. This is the state a worker is in after its stdout ended.
\<close>

theorem stop_capture_not_running_is_noop:
  assumes "\<not> device_running m dev"
  shows "stop_capture m dev wo = (Inr False, m) \<and>
         stop_attempts m dev wos = (replicate (length wos) (Inr False), m) \<and>
         stop_capture (sup_step m0 (StdoutEnd dev)) dev wo
           = (Inr False, sup_step m0 (StdoutEnd dev))"
  using stop_capture_idle[OF assms] stop_attempts_idle[OF assms]
    stop_capture_idle[OF stdout_end_not_running]
  by simp


lemma manager_cam1_state:
  "manager_cam1 =
     \<lparr>workers = [''cam1'' \<mapsto>
         (CaptureWorker_init ''cam1'' [])\<lparr>process := Some 4711, session_id := Some 1,
            is_running := True, started_at := Some 0, events_count := 0,
            error_count := 0, stdout_thread := True, stderr_thread := True\<rparr>],
      retired = [], os_trace = [Popen ''cam1'' 4711]\<rparr>"
  by (simp add: manager_cam1_def sup_run_def start_capture_launch_state device_running_def
      ProcessManager_init_def)

text \<open>
  The hypotheses of C2 hold with cam1 running and three requests for cam2, the first of
  which fails to launch.
\<close>

theorem at_most_one_running_worker_per_device_witness:
  "device_running manager_cam1 ''cam1'' \<and>
   \<not> device_running manager_cam1 ''cam2'' \<and>
   launch_possible [([], 2, None, 1), ([], 3, Some 4712, 2), ([], 4, Some 4713, 3)] \<and>
   length (running_workers manager_cam1 ''cam1'') \<le> 1 \<and>
   start_capture manager_cam1 ''cam1'' [] 5 (Some 4714) 4 = (False, manager_cam1) \<and>
   (\<exists>rs m'. start_attempts manager_cam1 ''cam2''
                [([], 2, None, 1), ([], 3, Some 4712, 2), ([], 4, Some 4713, 3)] = (rs, m') \<and>
             count_list rs True = 1 \<and>
             length (filter is_Popen (os_trace m')) =
               length (filter is_Popen (os_trace manager_cam1)) + 1)"
proof -
  have r1: "device_running manager_cam1 ''cam1''"
    by (simp add: manager_cam1_state device_running_def)
  have r2: "\<not> device_running manager_cam1 ''cam2''"
    by (simp add: manager_cam1_state device_running_def)
  have lp: "launch_possible [([], 2, None, 1), ([], 3, Some 4712, 2), ([], 4, Some 4713, 3)]"
    by (simp add: launch_possible_def)
  from at_most_one_running_worker_per_device[OF manager_cam1_def,
      of "''cam1''" "[]" 5 "Some 4714" 4 "''cam2''"
         "[([], 2, None, 1), ([], 3, Some 4712, 2), ([], 4, Some 4713, 3)]"]
    r1 r2 lp
  show ?thesis by blast
qed

lemma manager_cam1_ended_idle: "\<not> device_running manager_cam1_ended ''cam1''"
proof -
  have eq: "manager_cam1_ended = sup_step manager_cam1 (StdoutEnd ''cam1'')"
    by (simp only: manager_cam1_ended_def manager_cam1_def sup_run_def foldl_Cons foldl_Nil)
  show ?thesis unfolding eq by (rule stdout_end_not_running)
qed

text \<open>
  The hypothesis of C5 holds for cam1 after its capture was started and its stdout ended;
  the worker is still registered.
\<close>

theorem stop_capture_not_running_is_noop_witness:
  "\<not> device_running manager_cam1_ended ''cam1'' \<and>
   workers manager_cam1_ended ''cam1'' \<noteq> None \<and>
   stop_capture manager_cam1_ended ''cam1'' Exited = (Inr False, manager_cam1_ended) \<and>
   stop_attempts manager_cam1_ended ''cam1'' [Exited, TimeoutExpired]
     = ([Inr False, Inr False], manager_cam1_ended)"
proof -
  have reg: "workers manager_cam1_ended ''cam1'' \<noteq> None"
    by (simp add: manager_cam1_ended_def sup_run_def start_capture_launch_state
        device_running_def ProcessManager_init_def)
  have rep: "replicate (length [Exited, TimeoutExpired]) (Inr False :: stop_error + bool)
               = [Inr False, Inr False]"
    by simp
  from stop_capture_not_running_is_noop[OF manager_cam1_ended_idle,
      of Exited "[Exited, TimeoutExpired]"] manager_cam1_ended_idle reg
  show ?thesis unfolding rep by blast
qed

section \<open>Properties of the ingestion paths\<close>

lemma ingest_loop_counts:
  "\<exists>w'. ingest_loop e evs (ins, failed, w) =
           (ins + length (persisted e (db_calls w) evs),
            failed + length (not_persisted e (db_calls w) evs), w') \<and>
         db_rows w' = db_rows w @ persisted e (db_calls w) evs \<and>
         db_calls w' = db_calls w + length evs"
proof (induction evs arbitrary: ins failed w)
  case Nil
  show ?case by simp
next
  case (Cons ev rest)
  show ?case
  proof (cases "db_execute_ok e (db_calls w)")
    case True
    let ?w1 = "publish_event e (source_device ev) ev
                 (w\<lparr>db_calls := db_calls w + 1, db_rows := db_rows w @ [ev]\<rparr>)"
    have w1: "db_calls ?w1 = db_calls w + 1" "db_rows ?w1 = db_rows w @ [ev]"
      by (simp_all add: publish_event_def)
    from Cons.IH[of "ins + 1" failed ?w1] True w1 show ?thesis
      by (auto simp: insert_event_def)
  next
    case False
    let ?w1 = "write_to_fallback e ev
                 (w\<lparr>db_calls := db_calls w + 1,
                    error_log := error_log w @ [''Failed to insert event'']\<rparr>)"
    have w1: "db_calls ?w1 = db_calls w + 1" "db_rows ?w1 = db_rows w"
      by (simp_all add: write_to_fallback_def)
    from Cons.IH[of ins "failed + 1" ?w1] False w1 show ?thesis
      by (auto simp: insert_event_def)
  qed
qed

lemma persisted_partition:
  "length (persisted e n evs) + length (not_persisted e n evs) = length evs"
  by (induction evs arbitrary: n) simp_all

lemma same_store_publish:
  "same_store w1 w2 \<Longrightarrow> same_store (publish_event e1 d1 ev1 w1) (publish_event e2 d2 ev2 w2)"
  by (simp add: same_store_def publish_event_def)

lemma same_store_fallback:
  "same_store w1 w2 \<Longrightarrow> fallback_write_ok e1 = fallback_write_ok e2 \<Longrightarrow>
   same_store (write_to_fallback e1 ev w1) (write_to_fallback e2 ev w2)"
  by (simp add: same_store_def write_to_fallback_def)

lemma ingest_loop_publish_irrelevant:
  assumes "same_store w1 w2"
  shows "fst (ingest_loop (e\<lparr>redis_publish_ok := p\<rparr>) evs (ins, failed, w1)) =
           fst (ingest_loop e evs (ins, failed, w2)) \<and>
         fst (snd (ingest_loop (e\<lparr>redis_publish_ok := p\<rparr>) evs (ins, failed, w1))) =
           fst (snd (ingest_loop e evs (ins, failed, w2))) \<and>
         same_store (snd (snd (ingest_loop (e\<lparr>redis_publish_ok := p\<rparr>) evs (ins, failed, w1))))
                    (snd (snd (ingest_loop e evs (ins, failed, w2))))"
  using assms
proof (induction evs arbitrary: ins failed w1 w2)
  case Nil
  then show ?case by simp
next
  case (Cons ev rest)
  from Cons.prems have c: "db_calls w1 = db_calls w2" by (simp add: same_store_def)
  show ?case
  proof (cases "db_execute_ok e (db_calls w2)")
    case True
    have "same_store (w1\<lparr>db_calls := db_calls w1 + 1, db_rows := db_rows w1 @ [ev]\<rparr>)
                     (w2\<lparr>db_calls := db_calls w2 + 1, db_rows := db_rows w2 @ [ev]\<rparr>)"
      using Cons.prems by (simp add: same_store_def)
    then have "same_store
        (publish_event (e\<lparr>redis_publish_ok := p\<rparr>) (source_device ev) ev
           (w1\<lparr>db_calls := db_calls w1 + 1, db_rows := db_rows w1 @ [ev]\<rparr>))
        (publish_event e (source_device ev) ev
           (w2\<lparr>db_calls := db_calls w2 + 1, db_rows := db_rows w2 @ [ev]\<rparr>))"
      by (rule same_store_publish)
    from Cons.IH[OF this, of "ins + 1" failed] True c show ?thesis
      by (simp add: insert_event_def)
  next
    case False
    have "same_store
        (w1\<lparr>db_calls := db_calls w1 + 1, error_log := error_log w1 @ [''Failed to insert event'']\<rparr>)
        (w2\<lparr>db_calls := db_calls w2 + 1, error_log := error_log w2 @ [''Failed to insert event'']\<rparr>)"
      using Cons.prems by (simp add: same_store_def)
    then have "same_store
        (write_to_fallback (e\<lparr>redis_publish_ok := p\<rparr>) ev
           (w1\<lparr>db_calls := db_calls w1 + 1, error_log := error_log w1 @ [''Failed to insert event'']\<rparr>))
        (write_to_fallback e ev
           (w2\<lparr>db_calls := db_calls w2 + 1, error_log := error_log w2 @ [''Failed to insert event'']\<rparr>))"
      by (rule same_store_fallback) simp
    from Cons.IH[OF this, of ins "failed + 1"] False c show ?thesis
      by (simp add: insert_event_def)
  qed
qed

lemma same_store_refl: "same_store w w"
  by (simp add: same_store_def)

lemma ingest_batch:
  assumes "evs \<noteq> []"
  shows "ingest e (batch_request evs) w =
           (let (ins, failed, w') = ingest_loop e evs (0, 0, w)
            in (Inr \<lparr>status = ''ok'', inserted = ins,
                      message = (if failed > 0
                                 then Some (str_nat failed @ '' events written to fallback'')
                                 else None)\<rparr>, w'))"
  using assms by (simp add: ingest_def batch_request_def)

text \<open>
  Claim C7. For every non-empty batch sent to \<open>/ingest\<close> the response has status ok, its
  inserted count is the number of events whose \<open>db.execute\<close> call went through (the rows
  added to the table), the failed counter is the number of the others, the two add up to
  the size of the batch, and the response is the same whatever the relay does on
  publish.
\<close>

theorem ingest_batch_counts:
  assumes "evs \<noteq> []"
  shows "\<exists>r w'. ingest e (batch_request evs) w = (Inr r, w') \<and>
           status r = ''ok'' \<and>
           inserted r = length (persisted e (db_calls w) evs) \<and>
           db_rows w' = db_rows w @ persisted e (db_calls w) evs \<and>
           fst (snd (ingest_loop e evs (0, 0, w))) = length (not_persisted e (db_calls w) evs) \<and>
           inserted r + fst (snd (ingest_loop e evs (0, 0, w))) = length evs \<and>
           (\<forall>p. fst (ingest (e\<lparr>redis_publish_ok := p\<rparr>) (batch_request evs) w) = Inr r)"
proof -
  from ingest_loop_counts[of e evs 0 0 w] obtain w' where
    l: "ingest_loop e evs (0, 0, w) =
          (length (persisted e (db_calls w) evs), length (not_persisted e (db_calls w) evs), w')"
    and rows: "db_rows w' = db_rows w @ persisted e (db_calls w) evs"
    by auto
  define r where "r = \<lparr>status = ''ok'', inserted = length (persisted e (db_calls w) evs),
      message = (if length (not_persisted e (db_calls w) evs) > 0
                 then Some (str_nat (length (not_persisted e (db_calls w) evs))
                            @ '' events written to fallback'')
                 else None)\<rparr>"
  have i: "ingest e (batch_request evs) w = (Inr r, w')"
    using l by (simp add: ingest_batch[OF assms] r_def)
  have p: "fst (ingest (e\<lparr>redis_publish_ok := p\<rparr>) (batch_request evs) w) = Inr r" for p
  proof -
    obtain i2 f2 w2 where l2:
      "ingest_loop (e\<lparr>redis_publish_ok := p\<rparr>) evs (0, 0, w) = (i2, f2, w2)"
      by (cases "ingest_loop (e\<lparr>redis_publish_ok := p\<rparr>) evs (0, 0, w)") auto
    have "fst (ingest_loop (e\<lparr>redis_publish_ok := p\<rparr>) evs (0, 0, w)) =
            fst (ingest_loop e evs (0, 0, w)) \<and>
          fst (snd (ingest_loop (e\<lparr>redis_publish_ok := p\<rparr>) evs (0, 0, w))) =
            fst (snd (ingest_loop e evs (0, 0, w)))"
      using ingest_loop_publish_irrelevant[OF same_store_refl] by blast
    with l l2 have "i2 = length (persisted e (db_calls w) evs)"
         "f2 = length (not_persisted e (db_calls w) evs)"
      by simp_all
    with l2 show ?thesis
      by (simp add: ingest_batch[OF assms] r_def)
  qed
  show ?thesis
    using i rows l p persisted_partition[of e "db_calls w" evs]
    by (auto simp: r_def)
qed

text \<open>
  A run of C7: of three events the database takes the first only and the relay is down;
  one is inserted, two are failed, and the response is the one given with a working
  relay.
\<close>

theorem ingest_batch_counts_witness:
  "[event_cam1, event_cam1, event_cam1] \<noteq> [] \<and>
   persisted env_first_only (db_calls world_empty) [event_cam1, event_cam1, event_cam1]
     = [event_cam1] \<and>
   (\<exists>r w'. ingest env_first_only (batch_request [event_cam1, event_cam1, event_cam1]) world_empty
              = (Inr r, w') \<and>
            status r = ''ok'' \<and> inserted r = 1 \<and> db_rows w' = [event_cam1] \<and>
            fst (snd (ingest_loop env_first_only [event_cam1, event_cam1, event_cam1]
                        (0, 0, world_empty))) = 2 \<and>
            fst (ingest (env_first_only\<lparr>redis_publish_ok := (\<lambda>n. True)\<rparr>)
                   (batch_request [event_cam1, event_cam1, event_cam1]) world_empty) = Inr r)"
proof -
  have ne: "[event_cam1, event_cam1, event_cam1] \<noteq> []" by simp
  have c: "db_calls world_empty = 0" "db_rows world_empty = []"
    by (simp_all add: world_empty_def)
  have p: "persisted env_first_only (db_calls world_empty) [event_cam1, event_cam1, event_cam1]
             = [event_cam1]"
    by (simp add: c env_first_only_def)
  have n: "length (not_persisted env_first_only (db_calls world_empty)
             [event_cam1, event_cam1, event_cam1]) = 2"
    by (simp add: c env_first_only_def)
  from ingest_batch_counts[OF ne, of env_first_only world_empty] obtain r w' where
    "ingest env_first_only (batch_request [event_cam1, event_cam1, event_cam1]) world_empty
       = (Inr r, w')"
    "status r = ''ok''"
    "inserted r = length (persisted env_first_only (db_calls world_empty)
                            [event_cam1, event_cam1, event_cam1])"
    "db_rows w' = db_rows world_empty @ persisted env_first_only (db_calls world_empty)
                            [event_cam1, event_cam1, event_cam1]"
    "fst (snd (ingest_loop env_first_only [event_cam1, event_cam1, event_cam1]
                 (0, 0, world_empty)))
       = length (not_persisted env_first_only (db_calls world_empty)
                   [event_cam1, event_cam1, event_cam1])"
    "\<forall>p. fst (ingest (env_first_only\<lparr>redis_publish_ok := p\<rparr>)
                  (batch_request [event_cam1, event_cam1, event_cam1]) world_empty) = Inr r"
    by blast
  then show ?thesis
    unfolding p n using ne p c by auto
qed

lemma on_event_never_writes_fallback:
  "fallback_log (on_event e dev parsed w) = fallback_log w"
  by (cases parsed) (simp_all add: on_event_def insert_event_def publish_event_def)

text \<open>
  Claim C6 at the worker callback. With the database down, \<open>on_event\<close> leaves the event
  neither in the table nor in the fallback log nor on the relay, while \<open>ingest\<close> given the
  same event and collaborators appends it to the fallback log.
\<close>

theorem on_event_drops_event_on_db_failure:
  "db_rows (on_event env_db_down ''cam1'' (Some event_cam1) world_empty) = [] \<and>
   fallback_log (on_event env_db_down ''cam1'' (Some event_cam1) world_empty) = [] \<and>
   published (on_event env_db_down ''cam1'' (Some event_cam1) world_empty) = [] \<and>
   fallback_log (snd (ingest env_db_down (batch_request [event_cam1]) world_empty))
     = [event_cam1]"
  by (simp add: on_event_def ingest_def batch_request_def insert_event_def
      write_to_fallback_def publish_event_def env_db_down_def world_empty_def)

section \<open>Properties of the broadcast\<close>







subsection \<open>The forwarding tasks\<close>











end
